theory Spec2Isabelle
  imports Main "HOL-Library.Sublist"
begin

section \<open>Data model\<close>

text \<open>
  Both nodes keep \<^verbatim>\<open>data_store = {key: {"value": value, "version": version_number}}\<close>.
  Versions are Python integers (unbounded), keys are strings, the value is any JSON value
  other than null.
\<close>

record 'v entry =
  entry_value :: 'v
  entry_version :: int

type_synonym 'v store = "string \<rightharpoonup> 'v entry"

text \<open>
  The JSON bodies the handlers build with \<^verbatim>\<open>jsonify\<close>; a response is a body with its
  HTTP status code.
\<close>

datatype 'v body =
    ErrorBody string
  | WriteBody string string 'v int "string option"
  | ReplicateBody string bool "string option"
  | ReadBody string 'v int

type_synonym 'v response = "'v body \<times> nat"

fun body_status :: "'v body \<Rightarrow> string option" where
  "body_status (ErrorBody msg) = None"
| "body_status (WriteBody st k v n w) = Some st"
| "body_status (ReplicateBody st u r) = Some st"
| "body_status (ReadBody k v n) = None"

fun body_version :: "'v body \<Rightarrow> int option" where
  "body_version (ErrorBody msg) = None"
| "body_version (WriteBody st k v n w) = Some n"
| "body_version (ReplicateBody st u r) = None"
| "body_version (ReadBody k v n) = Some n"

fun body_updated :: "'v body \<Rightarrow> bool option" where
  "body_updated (ErrorBody msg) = None"
| "body_updated (WriteBody st k v n w) = None"
| "body_updated (ReplicateBody st u r) = Some u"
| "body_updated (ReadBody k v n) = None"

text \<open>
  Request bodies: \<^verbatim>\<open>data.get('key')\<close> is \<^verbatim>\<open>None\<close> when the field is missing or null.
\<close>

record 'v write_request =
  w_key :: "string option"
  w_value :: "'v option"

record 'v replicate_request =
  r_key :: "string option"
  r_value :: "'v option"
  r_version :: "int option"

section \<open>Follower: the replicate handler (follower.py)\<close>

definition replicate_follower ::
  "'v store \<Rightarrow> 'v replicate_request \<Rightarrow> 'v response \<times> 'v store" where
  "replicate_follower data_store data =
     (case r_key data of
        None \<Rightarrow> ((ErrorBody ''key, value, and version are required'', 400), data_store)
      | Some k \<Rightarrow>
     (case r_value data of
        None \<Rightarrow> ((ErrorBody ''key, value, and version are required'', 400), data_store)
      | Some v \<Rightarrow>
     (case r_version data of
        None \<Rightarrow> ((ErrorBody ''key, value, and version are required'', 400), data_store)
      | Some n \<Rightarrow>
     (case data_store k of
        None \<Rightarrow>
          ((ReplicateBody ''success'' True None, 200),
           data_store(k \<mapsto> \<lparr>entry_value = v, entry_version = n\<rparr>))
      | Some existing_data \<Rightarrow>
          if n > entry_version existing_data
          then ((ReplicateBody ''success'' True None, 200),
                data_store(k \<mapsto> \<lparr>entry_value = v, entry_version = n\<rparr>))
          else ((ReplicateBody ''success'' False (Some ''stale_version''), 200),
                data_store)))))"

text \<open>The read handler, the same code on both nodes.\<close>

definition read :: "'v store \<Rightarrow> string option \<Rightarrow> 'v response" where
  "read data_store key =
     (case key of
        None \<Rightarrow> (ErrorBody ''key parameter is required'', 400)
      | Some k \<Rightarrow>
     (case data_store k of
        None \<Rightarrow> (ErrorBody ''key not found'', 404)
      | Some d \<Rightarrow> (ReadBody k (entry_value d) (entry_version d), 200)))"

text \<open>A well-formed replication message, as the leader posts it.\<close>

definition replicate_msg :: "string \<Rightarrow> 'v \<Rightarrow> int \<Rightarrow> 'v replicate_request" where
  "replicate_msg k v n = \<lparr>r_key = Some k, r_value = Some v, r_version = Some n\<rparr>"

text \<open>A follower receiving a sequence of replication requests, one after the other.\<close>

fun deliver_all :: "'v store \<Rightarrow> 'v replicate_request list \<Rightarrow> 'v store" where
  "deliver_all st [] = st"
| "deliver_all st (d # ds) = deliver_all (snd (replicate_follower st d)) ds"

section \<open>Leader (leader.py)\<close>

record 'v leader =
  data_store :: "'v store"
  version_counter :: int

definition FOLLOWERS :: "string list" where
  "FOLLOWERS = [''http://follower1:5000'', ''http://follower2:5000'',
     ''http://follower3:5000'', ''http://follower4:5000'', ''http://follower5:5000'']"

text \<open>
  What \<^verbatim>\<open>requests.post\<close> gives \<^verbatim>\<open>replicate_to_follower\<close>: a response, or an exception
  (connection refused, timeout), which the function catches.
\<close>

datatype 'v post_result = Response "'v response" | RequestException

fun replicate_to_follower :: "'v post_result \<Rightarrow> bool" where
  "replicate_to_follower (Response r) = (snd r = 200)"
| "replicate_to_follower RequestException = False"

text \<open>
  \<^verbatim>\<open>future.result()\<close> of one replication task: the boolean the task returned, or an
  exception raised in the task outside its own try block.
\<close>

datatype future = Returned bool | Raised

text \<open>
  The loop over \<^verbatim>\<open>as_completed(future_to_follower)\<close>: the list holds the futures in
  completion order. The result is the decision and the futures the loop has not taken
  from the iterator when it returns.
\<close>

fun as_completed_loop ::
  "int \<Rightarrow> int \<Rightarrow> int \<Rightarrow> int \<Rightarrow> future list \<Rightarrow> bool \<times> future list" where
  "as_completed_loop WRITE_QUORUM total_followers successful failed [] =
     (successful \<ge> WRITE_QUORUM, [])"
| "as_completed_loop WRITE_QUORUM total_followers successful failed (Returned True # fs) =
     (if successful + 1 \<ge> WRITE_QUORUM then (True, fs)
      else if (successful + 1) + (total_followers - ((successful + 1) + failed)) < WRITE_QUORUM
      then (False, fs)
      else as_completed_loop WRITE_QUORUM total_followers (successful + 1) failed fs)"
| "as_completed_loop WRITE_QUORUM total_followers successful failed (Returned False # fs) =
     (if successful + (total_followers - (successful + (failed + 1))) < WRITE_QUORUM
      then (False, fs)
      else as_completed_loop WRITE_QUORUM total_followers successful (failed + 1) fs)"
| "as_completed_loop WRITE_QUORUM total_followers successful failed (Raised # fs) =
     (if successful + (total_followers - (successful + (failed + 1))) < WRITE_QUORUM
      then (False, fs)
      else as_completed_loop WRITE_QUORUM total_followers successful (failed + 1) fs)"

definition replicate_to_followers_run :: "int \<Rightarrow> future list \<Rightarrow> bool \<times> future list" where
  "replicate_to_followers_run WRITE_QUORUM futures =
     as_completed_loop WRITE_QUORUM (int (length futures)) 0 0 futures"

definition replicate_to_followers :: "int \<Rightarrow> future list \<Rightarrow> bool" where
  "replicate_to_followers WRITE_QUORUM futures =
     fst (replicate_to_followers_run WRITE_QUORUM futures)"

definition pending_futures :: "int \<Rightarrow> future list \<Rightarrow> future list" where
  "pending_futures WRITE_QUORUM futures =
     snd (replicate_to_followers_run WRITE_QUORUM futures)"

text \<open>The two critical sections of the write handler.\<close>

definition next_version :: "'v leader \<Rightarrow> int \<times> 'v leader" where
  "next_version s =
     (version_counter s + 1, s\<lparr>version_counter := version_counter s + 1\<rparr>)"

definition put_local :: "string \<Rightarrow> 'v \<Rightarrow> int \<Rightarrow> 'v leader \<Rightarrow> 'v leader" where
  "put_local k v current_version s =
     s\<lparr>data_store := (data_store s)(k \<mapsto> \<lparr>entry_value = v, entry_version = current_version\<rparr>)\<rparr>"

text \<open>
  The write handler run by one thread without interference; \<open>futures\<close> are the
  outcomes of the replication tasks in completion order.
\<close>

definition write_leader ::
  "int \<Rightarrow> 'v leader \<Rightarrow> 'v write_request \<Rightarrow> future list \<Rightarrow> 'v response \<times> 'v leader" where
  "write_leader WRITE_QUORUM s data futures =
     (case w_key data of
        None \<Rightarrow> ((ErrorBody ''key and value are required'', 400), s)
      | Some k \<Rightarrow>
     (case w_value data of
        None \<Rightarrow> ((ErrorBody ''key and value are required'', 400), s)
      | Some v \<Rightarrow>
          (let (current_version, s1) = next_version s;
               s2 = put_local k v current_version s1
           in if replicate_to_followers WRITE_QUORUM futures
              then ((WriteBody ''success'' k v current_version None, 200), s2)
              else ((WriteBody ''partial_success'' k v current_version
                       (Some ''Write quorum not met''), 200), s2))))"

definition write_msg :: "string \<Rightarrow> 'v \<Rightarrow> 'v write_request" where
  "write_msg k v = \<lparr>w_key = Some k, w_value = Some v\<rparr>"

text \<open>
  A sequence of write requests handled one after the other, each with the outcomes of
  its own replication tasks; the responses are returned in the order of the requests.
\<close>

fun run_writes ::
  "int \<Rightarrow> 'v leader \<Rightarrow> ('v write_request \<times> future list) list \<Rightarrow> 'v response list \<times> 'v leader" where
  "run_writes WRITE_QUORUM s [] = ([], s)"
| "run_writes WRITE_QUORUM s ((data, futures) # rest) =
     (let (resp, s1) = write_leader WRITE_QUORUM s data futures;
          (resps, s2) = run_writes WRITE_QUORUM s1 rest
      in (resp # resps, s2))"

text \<open>The versions carried by the accepted writes (status code 200) among the responses.\<close>

fun assigned_versions :: "'v response list \<Rightarrow> int list" where
  "assigned_versions [] = []"
| "assigned_versions ((b, code) # rs) =
     (case body_version b of
        Some n \<Rightarrow> if code = 200 then n # assigned_versions rs else assigned_versions rs
      | None \<Rightarrow> assigned_versions rs)"

text \<open>
  The server runs with \<^verbatim>\<open>threaded=True\<close>: each request has its own handler thread.
  \<^verbatim>\<open>version_lock\<close> and \<^verbatim>\<open>store_lock\<close> make the two sections atomic one by one, not
  together. A handler thread is at one of three points: validated and before
  \<^verbatim>\<open>version_lock\<close>, holding its \<^verbatim>\<open>current_version\<close> and before \<^verbatim>\<open>store_lock\<close>, or
  past the local write.
\<close>

datatype 'v handler =
    Received string 'v
  | VersionAssigned string 'v int
  | LocallyApplied string 'v int

fun handler_step :: "'v leader \<Rightarrow> 'v handler \<Rightarrow> 'v leader \<times> 'v handler" where
  "handler_step s (Received k v) =
     (let (current_version, s1) = next_version s in (s1, VersionAssigned k v current_version))"
| "handler_step s (VersionAssigned k v current_version) =
     (put_local k v current_version s, LocallyApplied k v current_version)"
| "handler_step s (LocallyApplied k v current_version) =
     (s, LocallyApplied k v current_version)"

text \<open>
  A schedule names, step by step, the thread that runs its next critical section.
\<close>

fun run_schedule ::
  "'v leader \<times> 'v handler list \<Rightarrow> nat list \<Rightarrow> 'v leader \<times> 'v handler list" where
  "run_schedule (s, hs) [] = (s, hs)"
| "run_schedule (s, hs) (i # sched) =
     (if i < length hs
      then (let (s1, h1) = handler_step s (hs ! i) in run_schedule (s1, hs[i := h1]) sched)
      else run_schedule (s, hs) sched)"

text \<open>
  The versions taken under \<^verbatim>\<open>version_lock\<close> along a schedule, in the order in which
  they are taken.
\<close>

fun schedule_versions :: "'v leader \<times> 'v handler list \<Rightarrow> nat list \<Rightarrow> int list" where
  "schedule_versions (s, hs) [] = []"
| "schedule_versions (s, hs) (i # sched) =
     (if i < length hs
      then (case hs ! i of Received k v \<Rightarrow> [fst (next_version s)] | _ \<Rightarrow> [])
           @ (let (s1, h1) = handler_step s (hs ! i)
              in schedule_versions (s1, hs[i := h1]) sched)
      else schedule_versions (s, hs) sched)"

section \<open>Notions used to state the properties\<close>

definition stored_version :: "'v store \<Rightarrow> string \<Rightarrow> int option" where
  "stored_version st k = map_option entry_version (st k)"

text \<open>
  Order on stored versions: a key without entry is below every version; an entry is
  never followed by no entry.
\<close>

fun version_le :: "int option \<Rightarrow> int option \<Rightarrow> bool" where
  "version_le None y = True"
| "version_le (Some a) None = False"
| "version_le (Some a) (Some b) = (a \<le> b)"

fun successCount :: "future list \<Rightarrow> int" where
  "successCount [] = 0"
| "successCount (Returned True # fs) = successCount fs + 1"
| "successCount (Returned False # fs) = successCount fs"
| "successCount (Raised # fs) = successCount fs"

fun failureCount :: "future list \<Rightarrow> int" where
  "failureCount [] = 0"
| "failureCount (Returned True # fs) = failureCount fs"
| "failureCount (Returned False # fs) = failureCount fs + 1"
| "failureCount (Raised # fs) = failureCount fs + 1"

text \<open>
  The early-failure condition in the words of the specification, after the outcomes
  \<open>p\<close> of \<open>F\<close> attempts have been observed.
\<close>

definition quorum_unreachable :: "int \<Rightarrow> int \<Rightarrow> future list \<Rightarrow> bool" where
  "quorum_unreachable Q F p =
     (successCount p + (F - successCount p - failureCount p) < Q)"

text \<open>The versions delivered for key \<open>k\<close> in a sequence of deliveries (key, value, version).\<close>

definition versions_for :: "string \<Rightarrow> (string \<times> 'v \<times> int) list \<Rightarrow> int list" where
  "versions_for k ds = map (\<lambda>d. snd (snd d)) (filter (\<lambda>d. fst d = k) ds)"

definition deliveries :: "(string \<times> 'v \<times> int) list \<Rightarrow> 'v replicate_request list" where
  "deliveries ds = map (\<lambda>d. replicate_msg (fst d) (fst (snd d)) (snd (snd d))) ds"

text \<open>
  What the leader's replication task gets from a follower: unreachable, or the response
  of the follower's handler on its current store.
\<close>

fun post_replicate :: "'v store option \<Rightarrow> 'v replicate_request \<Rightarrow> 'v post_result" where
  "post_replicate None msg = RequestException"
| "post_replicate (Some st) msg = Response (fst (replicate_follower st msg))"

text \<open>
  Every stored version on the leader is at most the version counter: true of the empty
  store at start, and kept by a write handled without interference.
\<close>

definition versions_bounded :: "'v leader \<Rightarrow> bool" where
  "versions_bounded s =
     (\<forall>k e. data_store s k = Some e \<longrightarrow> entry_version e \<le> version_counter s)"

text \<open>
  One replication task as the loop sees it: the task raised before it got any answer
  (\<open>None\<close>), or it returns what \<^verbatim>\<open>replicate_to_follower\<close> makes of the result of
  its post.
\<close>

fun attempt_future :: "'v post_result option \<Rightarrow> future" where
  "attempt_future None = Raised"
| "attempt_future (Some pr) = Returned (replicate_to_follower pr)"

text \<open>
  The futures of one fan-out when every task returns: each follower is unreachable
  (\<open>None\<close>) or answers from its store.
\<close>

definition follower_futures :: "'v store option list \<Rightarrow> 'v replicate_request \<Rightarrow> future list" where
  "follower_futures sts msg = map (\<lambda>st. Returned (replicate_to_follower (post_replicate st msg))) sts"

section \<open>Validation\<close>

text \<open>
  C8: a write without key or value, and a replicate without key, value or version, is
  answered with the 400 error at once and changes nothing: the store is the same and the
  leader's version counter is not incremented.
\<close>

theorem validation_rejects_without_effect:
  "(w_key wd = None \<or> w_value wd = None \<longrightarrow>
      write_leader Q s wd futures = ((ErrorBody ''key and value are required'', 400), s))
   \<and> (r_key rd = None \<or> r_value rd = None \<or> r_version rd = None \<longrightarrow>
      replicate_follower st rd =
        ((ErrorBody ''key, value, and version are required'', 400), st))"
  by (auto simp: write_leader_def replicate_follower_def split: option.splits)

theorem validation_rejects_without_effect_witness:
  "(w_key \<lparr>w_key = None, w_value = Some ''v''\<rparr> = None
      \<or> w_value \<lparr>w_key = None, w_value = Some ''v''\<rparr> = None)
   \<and> write_leader 3 \<lparr>data_store = Map.empty, version_counter = 7\<rparr>
        \<lparr>w_key = None, w_value = Some ''v''\<rparr> [Returned True, Returned True, Returned True]
       = ((ErrorBody ''key and value are required'', 400),
          \<lparr>data_store = Map.empty, version_counter = 7\<rparr>)
   \<and> (r_key \<lparr>r_key = Some ''k'', r_value = Some ''v'', r_version = None\<rparr> = None
      \<or> r_value \<lparr>r_key = Some ''k'', r_value = Some ''v'', r_version = None\<rparr> = None
      \<or> r_version \<lparr>r_key = Some ''k'', r_value = Some ''v'', r_version = None\<rparr> = None)
   \<and> replicate_follower Map.empty \<lparr>r_key = Some ''k'', r_value = Some ''v'', r_version = None\<rparr>
       = ((ErrorBody ''key, value, and version are required'', 400), Map.empty)"
  using validation_rejects_without_effect
    [of "\<lparr>w_key = None, w_value = Some ''v''\<rparr>" 3
        "\<lparr>data_store = Map.empty, version_counter = 7\<rparr>"
        "[Returned True, Returned True, Returned True]"
        "\<lparr>r_key = Some ''k'', r_value = Some ''v'', r_version = None\<rparr>" Map.empty]
  by simp

section \<open>The quorum decision\<close>

lemma successCount_bounds: "0 \<le> successCount fs \<and> successCount fs \<le> int (length fs)"
  by (induction fs rule: successCount.induct) auto

lemma success_failure_length: "successCount fs + failureCount fs = int (length fs)"
  by (induction fs rule: successCount.induct) auto

text \<open>
  The loop invariant: the counters and the futures still to come add up to the number of
  followers. Under it the loop decides exactly whether the successes reach the quorum.
\<close>

lemma loop_decision:
  "tot = s + f + int (length fs) \<Longrightarrow>
   fst (as_completed_loop Q tot s f fs) = (Q \<le> s + successCount fs)"
proof (induction Q tot s f fs rule: as_completed_loop.induct)
  case (1 Q tot s f)
  then show ?case by simp
next
  case (2 Q tot s f fs)
  from successCount_bounds[of fs] 2 show ?case by auto
next
  case (3 Q tot s f fs)
  from successCount_bounds[of fs] 3 show ?case by auto
next
  case (4 Q tot s f fs)
  from successCount_bounds[of fs] 4 show ?case by auto
qed

lemma replicate_to_followers_iff:
  "replicate_to_followers Q futures = (Q \<le> successCount futures)"
  by (simp add: replicate_to_followers_def replicate_to_followers_run_def loop_decision)

lemma write_leader_valid:
  "w_key wd = Some k \<Longrightarrow> w_value wd = Some v \<Longrightarrow>
   write_leader Q s wd futures =
     ((WriteBody (if Q \<le> successCount futures then ''success'' else ''partial_success'')
         k v (version_counter s + 1)
         (if Q \<le> successCount futures then None else Some ''Write quorum not met''), 200),
      put_local k v (version_counter s + 1) (s\<lparr>version_counter := version_counter s + 1\<rparr>))"
  by (simp add: write_leader_def replicate_to_followers_iff next_version_def Let_def)

text \<open>
  C1: a write with key and value reports status success exactly when at least
  WRITE_QUORUM of the replication attempts report success, whichever followers they are
  and in whatever order they complete; in particular with the five followers and quorum 3,
  three or more successes give status success.
\<close>

theorem write_success_iff_quorum:
  "w_key wd = Some k \<and> w_value wd = Some v \<longrightarrow>
     ((body_status (fst (fst (write_leader Q s wd futures))) = Some ''success'')
         = (Q \<le> successCount futures))
     \<and> (length futures = length FOLLOWERS \<and> 3 \<le> successCount futures \<longrightarrow>
           body_status (fst (fst (write_leader 3 s wd futures))) = Some ''success'')"
  by (simp add: write_leader_valid)

theorem write_success_iff_quorum_witness:
  "w_key (write_msg ''k'' ''v'') = Some ''k'' \<and> w_value (write_msg ''k'' ''v'') = Some ''v''
   \<and> length [Returned False, Returned True, Raised, Returned True, Returned True]
       = length FOLLOWERS
   \<and> 3 \<le> successCount [Returned False, Returned True, Raised, Returned True, Returned True]
   \<and> body_status (fst (fst (write_leader 3 \<lparr>data_store = Map.empty, version_counter = 0\<rparr>
      (write_msg ''k'' ''v'')
      [Returned False, Returned True, Raised, Returned True, Returned True])))
    = Some ''success''"
  using write_success_iff_quorum[of "write_msg ''k'' ''v''" "''k''" "''v''" 3
      "\<lparr>data_store = Map.empty, version_counter = 0\<rparr>"
      "[Returned False, Returned True, Raised, Returned True, Returned True]"]
  by (simp add: write_msg_def FOLLOWERS_def)

text \<open>
  C10: the quorum is any integer of the environment, not checked against the number of
  followers. A quorum above the number of followers makes the replicator answer false
  whatever the followers do, so every valid write reports partial_success; a quorum of 0
  or less makes it answer true whatever they do.
\<close>

theorem quorum_out_of_range:
  "(int (length futures) < Q \<longrightarrow>
      replicate_to_followers Q futures = False
      \<and> (w_key wd = Some k \<and> w_value wd = Some v \<longrightarrow>
           body_status (fst (fst (write_leader Q s wd futures))) = Some ''partial_success''))
   \<and> (Q \<le> 0 \<longrightarrow> replicate_to_followers Q futures = True)"
  using successCount_bounds[of futures]
  by (auto simp add: write_leader_valid replicate_to_followers_iff)

theorem quorum_out_of_range_witness:
  "int (length (map Returned [True, True, True, True, True])) < 6
   \<and> replicate_to_followers 6 (map Returned [True, True, True, True, True]) = False
   \<and> w_key (write_msg ''k'' ''v'') = Some ''k'' \<and> w_value (write_msg ''k'' ''v'') = Some ''v''
   \<and> body_status (fst (fst (write_leader 6 \<lparr>data_store = Map.empty, version_counter = 0\<rparr>
        (write_msg ''k'' ''v'') (map Returned [True, True, True, True, True]))))
       = Some ''partial_success''
   \<and> (0::int) \<le> 0
   \<and> replicate_to_followers 0 [Returned False, Raised, Returned False, Raised, Raised] = True"
  using quorum_out_of_range[of "map Returned [True, True, True, True, True]" 6
      "write_msg ''k'' ''v''" "''k''" "''v''" "\<lparr>data_store = Map.empty, version_counter = 0\<rparr>"]
    quorum_out_of_range[of "[Returned False, Raised, Returned False, Raised, Raised]" 0]
  by (simp add: write_msg_def)

lemma future_cases:
  obtains "a = Returned True" | "a = Returned False" | "a = Raised"
  by (cases a) auto

lemma loop_early_failure:
  "tot = s + f + int (length p) + int (length rest) \<Longrightarrow> p \<noteq> [] \<Longrightarrow>
   s + successCount p + int (length rest) < Q \<Longrightarrow>
   \<exists>q. as_completed_loop Q tot s f (p @ rest) = (False, q @ rest)"
proof (induction p arbitrary: s f)
  case Nil
  then show ?case by simp
next
  case (Cons a p)
  show ?case
  proof (cases "p = []")
    case True
    with Cons.prems show ?thesis
      by (cases a rule: future_cases) auto
  next
    case False
    note ne = this
    show ?thesis
    proof (cases a rule: future_cases)
      case 1
      from Cons.prems 1 successCount_bounds[of p] have nq: "\<not> Q \<le> s + 1" by simp
      show ?thesis
      proof (cases "(s + 1) + (tot - ((s + 1) + f)) < Q")
        case True
        with nq 1 have "as_completed_loop Q tot s f ((a # p) @ rest) = (False, p @ rest)"
          by simp
        then show ?thesis by blast
      next
        case False
        from Cons.IH[of "s + 1" f] Cons.prems ne 1
        obtain q where "as_completed_loop Q tot (s + 1) f (p @ rest) = (False, q @ rest)"
          by auto
        with nq False 1 show ?thesis by simp
      qed
    next
      case 2
      show ?thesis
      proof (cases "s + (tot - (s + (f + 1))) < Q")
        case True
        with 2 have "as_completed_loop Q tot s f ((a # p) @ rest) = (False, p @ rest)"
          by simp
        then show ?thesis by blast
      next
        case False
        from Cons.IH[of s "f + 1"] Cons.prems ne 2
        obtain q where "as_completed_loop Q tot s (f + 1) (p @ rest) = (False, q @ rest)"
          by auto
        with False 2 show ?thesis by simp
      qed
    next
      case 3
      show ?thesis
      proof (cases "s + (tot - (s + (f + 1))) < Q")
        case True
        with 3 have "as_completed_loop Q tot s f ((a # p) @ rest) = (False, p @ rest)"
          by simp
        then show ?thesis by blast
      next
        case False
        from Cons.IH[of s "f + 1"] Cons.prems ne 3
        obtain q where "as_completed_loop Q tot s (f + 1) (p @ rest) = (False, q @ rest)"
          by auto
        with False 3 show ?thesis by simp
      qed
    qed
  qed
qed

lemma loop_early_failure_exact:
  "tot = s + f + int (length p) + int (length rest) \<Longrightarrow> p \<noteq> [] \<Longrightarrow>
   s + successCount p + int (length rest) < Q \<Longrightarrow>
   length p = 1 \<or> Q \<le> s + successCount (butlast p) + 1 + int (length rest) \<Longrightarrow>
   as_completed_loop Q tot s f (p @ rest) = (False, rest)"
proof (induction p arbitrary: s f)
  case Nil
  then show ?case by simp
next
  case (Cons a p)
  show ?case
  proof (cases "p = []")
    case True
    with Cons.prems show ?thesis
      by (cases a rule: future_cases) auto
  next
    case False
    with Cons.prems(4)
    have first: "Q \<le> s + successCount (a # butlast p) + 1 + int (length rest)" by simp
    from False have lb: "int (length (butlast p)) + 1 = int (length p)"
      by (cases p rule: rev_cases) auto
    show ?thesis
    proof (cases a rule: future_cases)
      case 1
      from Cons.prems 1 successCount_bounds[of p] have nq: "\<not> Q \<le> s + 1" by simp
      from first 1 successCount_bounds[of "butlast p"] lb Cons.prems(1)
      have nf: "\<not> (s + 1) + (tot - ((s + 1) + f)) < Q" by simp
      from first 1 have "length p = 1 \<or> Q \<le> (s + 1) + successCount (butlast p) + 1 + int (length rest)"
        by simp
      with Cons.IH[of "s + 1" f] Cons.prems False 1
      have "as_completed_loop Q tot (s + 1) f (p @ rest) = (False, rest)" by simp
      with nq nf 1 show ?thesis by simp
    next
      case 2
      from first 2 successCount_bounds[of "butlast p"] lb Cons.prems(1)
      have nf: "\<not> s + (tot - (s + (f + 1))) < Q" by simp
      from first 2 have "length p = 1 \<or> Q \<le> s + successCount (butlast p) + 1 + int (length rest)"
        by simp
      with Cons.IH[of s "f + 1"] Cons.prems False 2
      have "as_completed_loop Q tot s (f + 1) (p @ rest) = (False, rest)" by simp
      with nf 2 show ?thesis by simp
    next
      case 3
      from first 3 successCount_bounds[of "butlast p"] lb Cons.prems(1)
      have nf: "\<not> s + (tot - (s + (f + 1))) < Q" by simp
      from first 3 have "length p = 1 \<or> Q \<le> s + successCount (butlast p) + 1 + int (length rest)"
        by simp
      with Cons.IH[of s "f + 1"] Cons.prems False 3
      have "as_completed_loop Q tot s (f + 1) (p @ rest) = (False, rest)" by simp
      with nf 3 show ?thesis by simp
    qed
  qed
qed

lemma quorum_unreachable_iff:
  "quorum_unreachable Q F p = (successCount p + (F - int (length p)) < Q)"
proof -
  have "int (length p) = successCount p + failureCount p"
    using success_failure_length[of p] by simp
  then show ?thesis
    unfolding quorum_unreachable_def by arith
qed

text \<open>
  Before any result the loop checks nothing: with a quorum above the number of followers
  it takes the first outcome, whatever it is, and answers false then.
\<close>

lemma early_failure_before_any_result:
  "int (length (a # rest)) < Q \<Longrightarrow>
   replicate_to_followers Q (a # rest) = False \<and> pending_futures Q (a # rest) = rest"
  by (cases a rule: future_cases)
    (simp_all add: replicate_to_followers_def pending_futures_def replicate_to_followers_run_def)

text \<open>
  C6: once the outcomes observed so far (at least one, the check runs after each result)
  leave the quorum out of reach even if every pending attempt succeeds, the replicator
  answers false and the outcomes after that prefix are still pending, not consumed; at
  the first such prefix the pending outcomes are exactly the rest. With five followers
  and quorum 4 this happens at the second failure.
\<close>

theorem early_failure_short_circuit:
  assumes "p \<noteq> []" and "quorum_unreachable Q (int (length (p @ rest))) p"
  shows "replicate_to_followers Q (p @ rest) = False
     \<and> suffix rest (pending_futures Q (p @ rest))
     \<and> (length p = 1 \<or> \<not> quorum_unreachable Q (int (length (p @ rest))) (butlast p)
          \<longrightarrow> pending_futures Q (p @ rest) = rest)"
proof -
  from assms(2) have u: "0 + successCount p + int (length rest) < Q"
    by (simp add: quorum_unreachable_iff)
  have tot: "int (length (p @ rest)) = 0 + 0 + int (length p) + int (length rest)" by simp
  from loop_early_failure[OF tot assms(1) u]
  obtain q where q: "as_completed_loop Q (int (length (p @ rest))) 0 0 (p @ rest) = (False, q @ rest)"
    by blast
  have exact: "pending_futures Q (p @ rest) = rest"
    if h: "length p = 1 \<or> \<not> quorum_unreachable Q (int (length (p @ rest))) (butlast p)"
  proof -
    from assms(1) have lb: "int (length (butlast p)) + 1 = int (length p)"
      by (cases p rule: rev_cases) auto
    have "int (length (p @ rest)) - int (length (butlast p)) = 1 + int (length rest)"
      using lb by simp
    then have "quorum_unreachable Q (int (length (p @ rest))) (butlast p)
        = (successCount (butlast p) + (1 + int (length rest)) < Q)"
      by (simp only: quorum_unreachable_iff)
    with h have "length p = 1 \<or> Q \<le> 0 + successCount (butlast p) + 1 + int (length rest)"
      by auto
    from loop_early_failure_exact[OF tot assms(1) u this]
    show ?thesis by (simp add: pending_futures_def replicate_to_followers_run_def)
  qed
  from q exact show ?thesis
    by (auto simp: replicate_to_followers_def pending_futures_def replicate_to_followers_run_def
        suffix_def)
qed

theorem early_failure_short_circuit_witness:
  "[Returned True, Returned False, Raised] \<noteq> []
   \<and> quorum_unreachable 4 (int (length ([Returned True, Returned False, Raised]
          @ [Returned True, Returned True]))) [Returned True, Returned False, Raised]
   \<and> \<not> quorum_unreachable 4 (int (length ([Returned True, Returned False, Raised]
          @ [Returned True, Returned True]))) (butlast [Returned True, Returned False, Raised])
   \<and> replicate_to_followers 4
        ([Returned True, Returned False, Raised] @ [Returned True, Returned True]) = False
   \<and> pending_futures 4
        ([Returned True, Returned False, Raised] @ [Returned True, Returned True])
       = [Returned True, Returned True]"
  using early_failure_short_circuit[of "[Returned True, Returned False, Raised]" 4
      "[Returned True, Returned True]"]
  by (simp add: quorum_unreachable_def)

section \<open>The follower's store\<close>

text \<open>
  C3: the follower applies a replicated write, overwriting the entry, exactly when the key
  has no entry or the incoming version is strictly greater than the stored one; otherwise
  (ties included) the store stays as it is and the answer is the ordinary 200 response
  with updated false.
\<close>

theorem replicate_applies_iff_newer:
  "((body_updated (fst (fst (replicate_follower st (replicate_msg k v n)))) = Some True)
       = (case st k of None \<Rightarrow> True | Some existing \<Rightarrow> n > entry_version existing))
   \<and> ((case st k of None \<Rightarrow> True | Some existing \<Rightarrow> n > entry_version existing) \<longrightarrow>
        replicate_follower st (replicate_msg k v n) =
          ((ReplicateBody ''success'' True None, 200),
           st(k \<mapsto> \<lparr>entry_value = v, entry_version = n\<rparr>)))
   \<and> ((case st k of None \<Rightarrow> False | Some existing \<Rightarrow> n \<le> entry_version existing) \<longrightarrow>
        replicate_follower st (replicate_msg k v n) =
          ((ReplicateBody ''success'' False (Some ''stale_version''), 200), st))"
  by (simp add: replicate_follower_def replicate_msg_def split: option.splits)

theorem replicate_applies_iff_newer_witness:
  "(case [''k'' \<mapsto> \<lparr>entry_value = ''a'', entry_version = 5\<rparr>] ''k'' of
       None \<Rightarrow> True | Some existing \<Rightarrow> 7 > entry_version existing)
   \<and> replicate_follower [''k'' \<mapsto> \<lparr>entry_value = ''a'', entry_version = 5\<rparr>]
        (replicate_msg ''k'' ''b'' 7) =
          ((ReplicateBody ''success'' True None, 200),
           [''k'' \<mapsto> \<lparr>entry_value = ''a'', entry_version = 5\<rparr>]
             (''k'' \<mapsto> \<lparr>entry_value = ''b'', entry_version = 7\<rparr>))
   \<and> (case [''k'' \<mapsto> \<lparr>entry_value = ''a'', entry_version = 5\<rparr>] ''k'' of
       None \<Rightarrow> False | Some existing \<Rightarrow> 5 \<le> entry_version existing)
   \<and> replicate_follower [''k'' \<mapsto> \<lparr>entry_value = ''a'', entry_version = 5\<rparr>]
        (replicate_msg ''k'' ''b'' 5) =
          ((ReplicateBody ''success'' False (Some ''stale_version''), 200),
           [''k'' \<mapsto> \<lparr>entry_value = ''a'', entry_version = 5\<rparr>])"
  using replicate_applies_iff_newer
      [of "[''k'' \<mapsto> \<lparr>entry_value = ''a'', entry_version = 5\<rparr>]" "''k''" "''b''" 7]
    replicate_applies_iff_newer
      [of "[''k'' \<mapsto> \<lparr>entry_value = ''a'', entry_version = 5\<rparr>]" "''k''" "''b''" 5]
  by simp

subsection \<open>Convergence to the highest version\<close>

lemma deliver_all_append:
  "deliver_all st (xs @ ys) = deliver_all (deliver_all st xs) ys"
  by (induction xs arbitrary: st) auto

lemma deliveries_snoc:
  "deliver_all st (deliveries (ds @ [d]))
     = snd (replicate_follower (deliver_all st (deliveries ds))
              (replicate_msg (fst d) (fst (snd d)) (snd (snd d))))"
  by (simp add: deliveries_def deliver_all_append)

lemma replicate_follower_other_key:
  "k' \<noteq> k \<Longrightarrow> snd (replicate_follower st (replicate_msg k' v n)) k = st k"
  by (simp add: replicate_follower_def replicate_msg_def split: option.splits)

lemma replicate_follower_same_key:
  "snd (replicate_follower st (replicate_msg k v n)) k =
     (case st k of
        None \<Rightarrow> Some \<lparr>entry_value = v, entry_version = n\<rparr>
      | Some e \<Rightarrow> if n > entry_version e then Some \<lparr>entry_value = v, entry_version = n\<rparr>
                  else Some e)"
  by (simp add: replicate_follower_def replicate_msg_def split: option.splits)

lemma versions_for_snoc:
  "versions_for k (ds @ [d]) = (if fst d = k then versions_for k ds @ [snd (snd d)]
                               else versions_for k ds)"
  by (simp add: versions_for_def)

lemma find_none_no_delivery:
  "versions_for k ds = [] \<Longrightarrow> find (\<lambda>d. fst d = k \<and> snd (snd d) = m) ds = None"
  by (induction ds) (auto simp: versions_for_def split: if_splits)

lemma find_none_above_max:
  "versions_for k ds \<noteq> [] \<Longrightarrow> Max (set (versions_for k ds)) < m \<Longrightarrow>
   find (\<lambda>d. fst d = k \<and> snd (snd d) = m) ds = None"
proof -
  assume ne: "versions_for k ds \<noteq> []" and lt: "Max (set (versions_for k ds)) < m"
  have "\<not> (\<exists>d \<in> set ds. fst d = k \<and> snd (snd d) = m)"
  proof
    assume "\<exists>d \<in> set ds. fst d = k \<and> snd (snd d) = m"
    then have "m \<in> set (versions_for k ds)" by (force simp: versions_for_def)
    then have "m \<le> Max (set (versions_for k ds))" by simp
    with lt show False by simp
  qed
  then show ?thesis by (auto simp: find_None_iff)
qed

lemma find_snoc:
  "find P (xs @ [x]) = (case find P xs of None \<Rightarrow> (if P x then Some x else None) | Some y \<Rightarrow> Some y)"
  by (induction xs) auto

lemma converge_general:
  "st k = None \<Longrightarrow>
   (versions_for k ds = [] \<longrightarrow> deliver_all st (deliveries ds) k = None)
   \<and> (versions_for k ds \<noteq> [] \<longrightarrow>
        (\<exists>v. find (\<lambda>d. fst d = k \<and> snd (snd d) = Max (set (versions_for k ds))) ds
               = Some (k, v, Max (set (versions_for k ds)))
           \<and> deliver_all st (deliveries ds) k
               = Some \<lparr>entry_value = v, entry_version = Max (set (versions_for k ds))\<rparr>))"
proof (induction ds rule: rev_induct)
  case Nil
  then show ?case by (simp add: versions_for_def deliveries_def)
next
  case (snoc d ds)
  obtain k' v' n' where d: "d = (k', v', n')" by (cases d)
  let ?st = "deliver_all st (deliveries ds)"
  show ?case
  proof (cases "k' = k")
    case False
    with snoc d show ?thesis
      by (auto simp: versions_for_snoc deliveries_snoc replicate_follower_other_key find_snoc)
  next
    case True
    note same = this
    show ?thesis
    proof (cases "versions_for k ds = []")
      case True
      with snoc same d have "?st k = None" by simp
      with True same d show ?thesis
        by (simp add: versions_for_snoc deliveries_snoc replicate_follower_same_key
            find_none_no_delivery find_snoc)
    next
      case False
      let ?m = "Max (set (versions_for k ds))"
      from False snoc obtain v where
        f: "find (\<lambda>d. fst d = k \<and> snd (snd d) = ?m) ds = Some (k, v, ?m)"
        and s: "?st k = Some \<lparr>entry_value = v, entry_version = ?m\<rparr>" by auto
      have mx: "Max (set (versions_for k (ds @ [d]))) = max n' ?m"
        using False same d by (simp add: versions_for_snoc)
      show ?thesis
      proof (cases "n' > ?m")
        case True
        then have "max n' ?m = n'" by simp
        with mx True False same d s find_none_above_max[OF False True] show ?thesis
          by (simp add: versions_for_snoc deliveries_snoc replicate_follower_same_key find_snoc)
      next
        case False
        then have "max n' ?m = ?m" by simp
        with mx False same d s f show ?thesis
          by (simp add: versions_for_snoc deliveries_snoc replicate_follower_same_key find_snoc)
      qed
    qed
  qed
qed

text \<open>
  C2: after any sequence of deliveries to a follower that had no entry for the key, in
  any order, with repetitions and with deliveries for other keys in between, the stored
  version of the key is the greatest version delivered for it, and the stored value is
  the value of the first delivery that carried this version. Versions 5, 3, 7, 2 in this
  order leave version 7.
\<close>

theorem follower_converges_to_max_version:
  assumes "st k = None" and "versions_for k ds \<noteq> []"
  shows "stored_version (deliver_all st (deliveries ds)) k = Some (Max (set (versions_for k ds)))
     \<and> (\<exists>v. find (\<lambda>d. fst d = k \<and> snd (snd d) = Max (set (versions_for k ds))) ds
               = Some (k, v, Max (set (versions_for k ds)))
           \<and> deliver_all st (deliveries ds) k
               = Some \<lparr>entry_value = v, entry_version = Max (set (versions_for k ds))\<rparr>)"
  using converge_general[of st k ds] assms
  by (auto simp: stored_version_def)


theorem follower_converges_to_max_version_witness:
  "(Map.empty :: string store) ''k'' = None
   \<and> versions_for ''k'' [(''k'', ''a'', 5), (''k'', ''b'', 3), (''k'', ''c'', 7), (''k'', ''d'', 2)]
       = [5, 3, 7, 2]
   \<and> stored_version (deliver_all Map.empty
        (deliveries [(''k'', ''a'', 5), (''k'', ''b'', 3), (''k'', ''c'', 7), (''k'', ''d'', 2)]))
        ''k'' = Some 7"
proof -
  have v: "versions_for ''k'' [(''k'', ''a'', 5), (''k'', ''b'', 3), (''k'', ''c'', 7), (''k'', ''d'', 2)]
       = [5, 3, 7, 2]"
    by (simp add: versions_for_def)
  have e: "(Map.empty :: string store) ''k'' = None" by simp
  have ne: "versions_for ''k'' [(''k'', ''a'', 5), (''k'', ''b'', 3), (''k'', ''c'', 7), (''k'', ''d'', 2)] \<noteq> []"
    by (simp add: v)
  from follower_converges_to_max_version
    [of "Map.empty :: string store" "''k''"
        "[(''k'', ''a'', 5), (''k'', ''b'', 3), (''k'', ''c'', 7), (''k'', ''d'', 2)]"] ne v e
  show ?thesis by simp
qed

section \<open>The leader's write path\<close>

text \<open>
  C4: when the quorum is not met, a valid write answers partial_success with the version
  it assigned, the local entry stays written, and a read of the key on the leader gives
  the written value and version.
\<close>

theorem partial_success_keeps_local_write:
  "w_key wd = Some k \<and> w_value wd = Some v \<and> successCount futures < Q \<longrightarrow>
     fst (write_leader Q s wd futures) =
       (WriteBody ''partial_success'' k v (version_counter s + 1)
          (Some ''Write quorum not met''), 200)
     \<and> data_store (snd (write_leader Q s wd futures)) =
         (data_store s)(k \<mapsto> \<lparr>entry_value = v, entry_version = version_counter s + 1\<rparr>)
     \<and> read (data_store (snd (write_leader Q s wd futures))) (Some k) =
         (ReadBody k v (version_counter s + 1), 200)"
  by (simp add: write_leader_valid put_local_def read_def)

theorem partial_success_keeps_local_write_witness:
  "w_key (write_msg ''k'' ''v'') = Some ''k'' \<and> w_value (write_msg ''k'' ''v'') = Some ''v''
   \<and> successCount [Returned True, Returned False, Returned False, Returned True, Returned False] < 3
   \<and> fst (write_leader 3 \<lparr>data_store = Map.empty, version_counter = 41\<rparr> (write_msg ''k'' ''v'')
        [Returned True, Returned False, Returned False, Returned True, Returned False]) =
       (WriteBody ''partial_success'' ''k'' ''v'' 42 (Some ''Write quorum not met''), 200)
   \<and> read (data_store (snd (write_leader 3 \<lparr>data_store = Map.empty, version_counter = 41\<rparr>
        (write_msg ''k'' ''v'')
        [Returned True, Returned False, Returned False, Returned True, Returned False])))
        (Some ''k'') = (ReadBody ''k'' ''v'' 42, 200)"
  using partial_success_keeps_local_write[of "write_msg ''k'' ''v''" "''k''" "''v''"
      "[Returned True, Returned False, Returned False, Returned True, Returned False]" 3
      "\<lparr>data_store = Map.empty, version_counter = 41\<rparr>"]
  by (simp add: write_msg_def read_def)

subsection \<open>The version counter\<close>

lemma write_leader_counter:
  "version_counter (snd (write_leader Q s wd futures)) \<ge> version_counter s"
  by (auto simp: write_leader_def next_version_def put_local_def Let_def split: option.splits)

lemma write_leader_version:
  "body_version (fst (fst (write_leader Q s wd futures))) = Some n \<Longrightarrow>
   version_counter s < n \<and> version_counter (snd (write_leader Q s wd futures)) = n"
  by (auto simp: write_leader_def next_version_def put_local_def Let_def split: option.splits if_splits)

lemma run_writes_versions:
  "(\<forall>n \<in> set (assigned_versions (fst (run_writes Q s reqs))). version_counter s < n
        \<and> n \<le> version_counter (snd (run_writes Q s reqs)))
   \<and> version_counter s \<le> version_counter (snd (run_writes Q s reqs))
   \<and> sorted_wrt (<) (assigned_versions (fst (run_writes Q s reqs)))"
proof (induction reqs arbitrary: s)
  case Nil
  then show ?case by simp
next
  case (Cons r reqs)
  obtain wd futures where r: "r = (wd, futures)" by (cases r)
  obtain b code s1 where w: "write_leader Q s wd futures = ((b, code), s1)"
    by (metis surj_pair)
  obtain resps s2 where rw: "run_writes Q s1 reqs = (resps, s2)" by (cases "run_writes Q s1 reqs")
  from write_leader_counter[of s Q wd futures] w have c1: "version_counter s \<le> version_counter s1"
    by simp
  from Cons.IH[of s1] rw have
    ih1: "\<forall>n \<in> set (assigned_versions resps). version_counter s1 < n \<and> n \<le> version_counter s2"
    and ih2: "version_counter s1 \<le> version_counter s2"
    and ih3: "sorted_wrt (<) (assigned_versions resps)" by auto
  have run: "run_writes Q s (r # reqs) = ((b, code) # resps, s2)"
    by (simp add: r w rw)
  show ?case
  proof (cases "body_version b")
    case None
    with run ih1 ih2 ih3 c1 show ?thesis by auto
  next
    case (Some n)
    with write_leader_version[of Q s wd futures n] w
    have n: "version_counter s < n" "version_counter s1 = n" by auto
    with run ih1 ih2 ih3 c1 Some show ?thesis by auto
  qed
qed

lemma handler_step_counter:
  "version_counter s \<le> version_counter (fst (handler_step s h))"
  by (cases h) (simp_all add: next_version_def put_local_def)

lemma schedule_versions_increasing:
  "sorted_wrt (<) (schedule_versions (s, hs) sched)
   \<and> (\<forall>n \<in> set (schedule_versions (s, hs) sched). version_counter s < n)"
proof (induction sched arbitrary: s hs)
  case Nil
  then show ?case by simp
next
  case (Cons i sched)
  show ?case
  proof (cases "i < length hs")
    case False
    with Cons.IH[of s hs] show ?thesis by simp
  next
    case True
    obtain s1 h1 where st: "handler_step s (hs ! i) = (s1, h1)"
      by (cases "handler_step s (hs ! i)")
    from Cons.IH[of s1 "hs[i := h1]"] have
      ih1: "sorted_wrt (<) (schedule_versions (s1, hs[i := h1]) sched)"
      and ih2: "\<forall>n \<in> set (schedule_versions (s1, hs[i := h1]) sched). version_counter s1 < n"
      by auto
    from handler_step_counter[of s "hs ! i"] st have mono: "version_counter s \<le> version_counter s1"
      by simp
    have unfold: "schedule_versions (s, hs) (i # sched) =
        (case hs ! i of Received k v \<Rightarrow> [fst (next_version s)] | _ \<Rightarrow> [])
          @ schedule_versions (s1, hs[i := h1]) sched"
      using True st by simp
    show ?thesis
    proof (cases "hs ! i")
      case (Received k v)
      with st have c: "version_counter s1 = version_counter s + 1"
        by (auto simp: next_version_def)
      from Received unfold have "schedule_versions (s, hs) (i # sched) =
          (version_counter s + 1) # schedule_versions (s1, hs[i := h1]) sched"
        by (simp add: next_version_def)
      with c ih1 ih2 show ?thesis by auto
    next
      case (VersionAssigned k v n)
      with unfold have "schedule_versions (s, hs) (i # sched) =
          schedule_versions (s1, hs[i := h1]) sched" by simp
      with ih1 ih2 mono show ?thesis by auto
    next
      case (LocallyApplied k v n)
      with unfold have "schedule_versions (s, hs) (i # sched) =
          schedule_versions (s1, hs[i := h1]) sched" by simp
      with ih1 ih2 mono show ?thesis by auto
    qed
  qed
qed

text \<open>
  C5: the versions of the accepted writes are strictly increasing in the order of
  assignment, whatever the keys, and above the counter's starting value: for requests
  handled one after the other, and for handler threads under any schedule of their
  critical sections.
\<close>

theorem versions_strictly_increasing:
  "sorted_wrt (<) (assigned_versions (fst (run_writes Q s reqs)))
   \<and> (\<forall>n \<in> set (assigned_versions (fst (run_writes Q s reqs))). version_counter s < n)
   \<and> sorted_wrt (<) (schedule_versions (s, hs) sched)
   \<and> (\<forall>n \<in> set (schedule_versions (s, hs) sched). version_counter s < n)"
  using run_writes_versions[of Q s reqs] schedule_versions_increasing[of s hs sched] by blast

theorem versions_strictly_increasing_witness:
  "assigned_versions (fst (run_writes 3 \<lparr>data_store = Map.empty, version_counter = 0\<rparr>
     [(write_msg ''a'' ''x'', map Returned [True, True, True, False, False]),
      (\<lparr>w_key = None, w_value = Some ''y''\<rparr>, []),
      (write_msg ''b'' ''y'', map Returned [False, False, False]),
      (write_msg ''a'' ''z'', map Returned [True, True, True, False, False])])) = [1, 2, 3]
   \<and> schedule_versions (\<lparr>data_store = Map.empty, version_counter = 0\<rparr>,
        [Received ''k'' ''a'', Received ''j'' ''b'', Received ''k'' ''c'']) [2, 0, 2, 1, 1, 0]
       = [1, 2, 3]
   \<and> sorted_wrt (<) [1, 2, 3 :: int]
   \<and> version_counter \<lparr>data_store = Map.empty :: string store, version_counter = 0\<rparr> < 1"
  using versions_strictly_increasing[of 3 "\<lparr>data_store = Map.empty, version_counter = 0\<rparr>"
     "[(write_msg ''a'' ''x'', map Returned [True, True, True, False, False]),
       (\<lparr>w_key = None, w_value = Some ''y''\<rparr>, []),
       (write_msg ''b'' ''y'', map Returned [False, False, False]),
       (write_msg ''a'' ''z'', map Returned [True, True, True, False, False])]"
     "[Received ''k'' ''a'', Received ''j'' ''b'', Received ''k'' ''c'']" "[2, 0, 2, 1, 1, 0]"]
  by (simp add: write_leader_def write_msg_def next_version_def put_local_def Let_def
      replicate_to_followers_iff)

section \<open>What the quorum counts\<close>

lemma replicate_follower_code:
  "snd (fst (replicate_follower st (replicate_msg k v n))) = 200"
  by (simp add: replicate_follower_def replicate_msg_def split: option.splits)

lemma follower_futures_success:
  "successCount (follower_futures sts (replicate_msg k v n))
     = int (length (filter (\<lambda>st. st \<noteq> None) sts))"
proof (induction sts)
  case Nil
  then show ?case by (simp add: follower_futures_def)
next
  case (Cons a sts)
  then show ?case
    by (cases a) (simp_all add: follower_futures_def replicate_follower_code)
qed

lemma attempt_futures_success:
  "successCount (map attempt_future atts)
     = int (length (filter (\<lambda>a. \<exists>b. a = Some (Response (b, 200))) atts))"
proof (induction atts)
  case Nil
  then show ?case by simp
next
  case (Cons a atts)
  show ?case
  proof (cases a)
    case None
    with Cons show ?thesis by simp
  next
    case (Some pr)
    show ?thesis
    proof (cases pr)
      case (Response r)
      obtain b code where r: "r = (b, code)" by (cases r)
      with Cons Some Response show ?thesis by (cases "code = 200") simp_all
    next
      case RequestException
      with Cons Some show ?thesis by simp
    qed
  qed
qed

lemma follower_futures_attempts:
  "follower_futures sts msg = map attempt_future (map (\<lambda>st. Some (post_replicate st msg)) sts)"
  by (simp add: follower_futures_def)

text \<open>
  C9: a replication attempt counts toward the quorum exactly when the follower answers
  with status code 200: an unreachable follower, an answer with another code and a task
  that raised are not counted, so the replicator answers true, and the write reports
  success, exactly when WRITE_QUORUM is at most the number of 200 answers. A follower that
  rejects the write as stale answers 200 with updated false and leaves its store as it
  was, so it is counted: the quorum counts acknowledgements, and a write reports success
  when enough followers answer although none of them applied it.
\<close>

theorem quorum_counts_acknowledgements:
  "(replicate_to_follower pr = (\<exists>b. pr = Response (b, 200)))
   \<and> successCount (map attempt_future atts)
       = int (length (filter (\<lambda>a. \<exists>b. a = Some (Response (b, 200))) atts))
   \<and> replicate_to_followers Q (map attempt_future atts)
       = (Q \<le> int (length (filter (\<lambda>a. \<exists>b. a = Some (Response (b, 200))) atts)))
   \<and> (body_status (fst (fst (write_leader Q s (write_msg k v) (map attempt_future atts))))
         = Some ''success'')
       = (Q \<le> int (length (filter (\<lambda>a. \<exists>b. a = Some (Response (b, 200))) atts)))
   \<and> ((case st k of None \<Rightarrow> False | Some existing \<Rightarrow> n \<le> entry_version existing) \<longrightarrow>
        post_replicate (Some st) (replicate_msg k v n)
          = Response (ReplicateBody ''success'' False (Some ''stale_version''), 200)
        \<and> snd (replicate_follower st (replicate_msg k v n)) = st)
   \<and> (body_status (fst (fst (write_leader Q s (write_msg k v)
           (follower_futures sts (replicate_msg k v (version_counter s + 1))))))
         = Some ''success'')
       = (Q \<le> int (length (filter (\<lambda>x. x \<noteq> None) sts)))
   \<and> (Q \<le> int (length (filter (\<lambda>x. x \<noteq> None) sts))
        \<and> (\<forall>fstore. Some fstore \<in> set sts \<longrightarrow>
              (case fstore k of None \<Rightarrow> False
               | Some existing \<Rightarrow> version_counter s + 1 \<le> entry_version existing)) \<longrightarrow>
        body_status (fst (fst (write_leader Q s (write_msg k v)
           (follower_futures sts (replicate_msg k v (version_counter s + 1))))))
          = Some ''success''
        \<and> (\<forall>fstore. Some fstore \<in> set sts \<longrightarrow>
             replicate_follower fstore (replicate_msg k v (version_counter s + 1))
               = ((ReplicateBody ''success'' False (Some ''stale_version''), 200), fstore)))"
proof -
  have a: "replicate_to_follower pr = (\<exists>b. pr = Response (b, 200))"
    by (cases pr) auto
  have stale: "replicate_follower st (replicate_msg k v n)
          = ((ReplicateBody ''success'' False (Some ''stale_version''), 200), st)"
    if "case st k of None \<Rightarrow> False | Some existing \<Rightarrow> n \<le> entry_version existing" for st n
    using that
    by (auto simp add: replicate_follower_def replicate_msg_def split: option.splits)
  have w: "(body_status (fst (fst (write_leader Q s (write_msg k v) futures))) = Some ''success'')
      = (Q \<le> successCount futures)" for futures
    by (simp add: write_leader_valid[of _ k v] write_msg_def)
  have f: "(body_status (fst (fst (write_leader Q s (write_msg k v)
           (follower_futures sts (replicate_msg k v (version_counter s + 1))))))
         = Some ''success'')
       = (Q \<le> int (length (filter (\<lambda>x. x \<noteq> None) sts)))"
    by (simp only: w follower_futures_success)
  from a stale f show ?thesis
    by (simp add: attempt_futures_success replicate_to_followers_iff w)
qed

theorem quorum_counts_acknowledgements_witness:
  "successCount (map attempt_future
      [Some (Response (ReplicateBody ''success'' False (Some ''stale_version''), 200)),
       Some RequestException, Some (Response (ErrorBody ''boom'', 500)), None,
       Some (Response (ReplicateBody ''success'' True None, 200))]) = 2
   \<and> replicate_to_followers 2 (map attempt_future
      [Some (Response (ReplicateBody ''success'' False (Some ''stale_version''), 200)),
       Some RequestException, Some (Response (ErrorBody ''boom'', 500)), None,
       Some (Response (ReplicateBody ''success'' True None, 200))])
   \<and> \<not> replicate_to_followers 3 (map attempt_future
      [Some (Response (ReplicateBody ''success'' False (Some ''stale_version''), 200)),
       Some RequestException, Some (Response (ErrorBody ''boom'', 500)), None,
       Some (Response (ReplicateBody ''success'' True None, 200))])
   \<and> body_status (fst (fst (write_leader 2 \<lparr>data_store = Map.empty, version_counter = 0\<rparr>
        (write_msg ''k'' ''new'') (map attempt_future
      [Some (Response (ReplicateBody ''success'' False (Some ''stale_version''), 200)),
       Some RequestException, Some (Response (ErrorBody ''boom'', 500)), None,
       Some (Response (ReplicateBody ''success'' True None, 200))])))) = Some ''success''
   \<and> body_status (fst (fst (write_leader 3 \<lparr>data_store = Map.empty, version_counter = 0\<rparr>
        (write_msg ''k'' ''new'') (map attempt_future
      [Some (Response (ReplicateBody ''success'' False (Some ''stale_version''), 200)),
       Some RequestException, Some (Response (ErrorBody ''boom'', 500)), None,
       Some (Response (ReplicateBody ''success'' True None, 200))])))) = Some ''partial_success''
   \<and> (case [''k'' \<mapsto> \<lparr>entry_value = ''old'', entry_version = 9\<rparr>] ''k'' of
        None \<Rightarrow> False | Some existing \<Rightarrow> 1 \<le> entry_version existing)
   \<and> post_replicate (Some [''k'' \<mapsto> \<lparr>entry_value = ''old'', entry_version = 9\<rparr>])
        (replicate_msg ''k'' ''new'' 1)
       = Response (ReplicateBody ''success'' False (Some ''stale_version''), 200)
   \<and> replicate_follower [''k'' \<mapsto> \<lparr>entry_value = ''old'', entry_version = 9\<rparr>]
        (replicate_msg ''k'' ''new'' 1)
       = ((ReplicateBody ''success'' False (Some ''stale_version''), 200),
          [''k'' \<mapsto> \<lparr>entry_value = ''old'', entry_version = 9\<rparr>])
   \<and> 2 \<le> int (length (filter (\<lambda>x. x \<noteq> None)
      [Some [''k'' \<mapsto> \<lparr>entry_value = ''old'', entry_version = 9\<rparr>],
       Some [''k'' \<mapsto> \<lparr>entry_value = ''old'', entry_version = 9\<rparr>], None, None, None]))
   \<and> body_status (fst (fst (write_leader 2 \<lparr>data_store = Map.empty, version_counter = 0\<rparr>
        (write_msg ''k'' ''new'')
        (follower_futures
      [Some [''k'' \<mapsto> \<lparr>entry_value = ''old'', entry_version = 9\<rparr>],
       Some [''k'' \<mapsto> \<lparr>entry_value = ''old'', entry_version = 9\<rparr>], None, None, None]
           (replicate_msg ''k'' ''new'' 1))))) = Some ''success''
   \<and> body_status (fst (fst (write_leader 3 \<lparr>data_store = Map.empty, version_counter = 0\<rparr>
        (write_msg ''k'' ''new'')
        (follower_futures [None, None, None, None, None]
           (replicate_msg ''k'' ''new'' 1))))) = Some ''partial_success''"
  using quorum_counts_acknowledgements
    [where pr = "Response (ErrorBody [], 200)" and Q = 2 and k = "''k''" and v = "''new''"
       and n = 1 and s = "\<lparr>data_store = Map.empty, version_counter = 0\<rparr>"
       and st = "[''k'' \<mapsto> \<lparr>entry_value = ''old'', entry_version = 9\<rparr>]"
       and atts = "[Some (Response (ReplicateBody ''success'' False (Some ''stale_version''), 200)),
       Some RequestException, Some (Response (ErrorBody ''boom'', 500)), None,
       Some (Response (ReplicateBody ''success'' True None, 200))]"
       and sts = "[Some [''k'' \<mapsto> \<lparr>entry_value = ''old'', entry_version = 9\<rparr>],
       Some [''k'' \<mapsto> \<lparr>entry_value = ''old'', entry_version = 9\<rparr>], None, None, None]"]
    quorum_counts_acknowledgements
    [where pr = "Response (ErrorBody [], 200)" and Q = 3 and k = "''k''" and v = "''new''"
       and n = 1 and s = "\<lparr>data_store = Map.empty, version_counter = 0\<rparr>"
       and st = "[''k'' \<mapsto> \<lparr>entry_value = ''old'', entry_version = 9\<rparr>]"
       and atts = "[Some (Response (ReplicateBody ''success'' False (Some ''stale_version''), 200)),
       Some RequestException, Some (Response (ErrorBody ''boom'', 500)), None,
       Some (Response (ReplicateBody ''success'' True None, 200))]"
       and sts = "[None, None, None, None, None]"]
  by (simp add: write_leader_valid[of _ "''k''" "''new''"] write_msg_def follower_futures_def
      replicate_follower_def replicate_msg_def)

section \<open>Stored versions over time\<close>

lemma version_le_refl: "version_le x x"
  by (cases x) auto

lemma replicate_follower_monotone:
  "version_le (stored_version st k) (stored_version (snd (replicate_follower st d)) k)"
  by (auto simp: replicate_follower_def stored_version_def version_le_refl split: option.splits)

lemma version_le_trans: "version_le x y \<Longrightarrow> version_le y z \<Longrightarrow> version_le x z"
  by (cases x; cases y; cases z) auto

lemma deliver_all_monotone:
  "version_le (stored_version st k) (stored_version (deliver_all st ds) k)"
proof (induction ds arbitrary: st)
  case Nil
  then show ?case by (simp add: version_le_refl)
next
  case (Cons d ds)
  from version_le_trans[OF replicate_follower_monotone[of st k d] Cons.IH[of "snd (replicate_follower st d)"]]
  show ?case by simp
qed

lemma write_leader_monotone_sequential:
  "versions_bounded s \<Longrightarrow>
   versions_bounded (snd (write_leader Q s wd futures))
   \<and> version_le (stored_version (data_store s) k)
        (stored_version (data_store (snd (write_leader Q s wd futures))) k)"
proof -
  assume b: "versions_bounded s"
  show ?thesis
  proof (cases "w_key wd")
    case None
    with b show ?thesis by (simp add: write_leader_def version_le_refl)
  next
    case (Some k')
    note key = this
    show ?thesis
    proof (cases "w_value wd")
      case None
      with b key show ?thesis by (simp add: write_leader_def version_le_refl)
    next
      case (Some v)
      have le: "version_le (stored_version (data_store s) k') (Some (version_counter s + 1))"
      proof (cases "data_store s k'")
        case None
        then show ?thesis by (simp add: stored_version_def)
      next
        case (Some e)
        with b have "entry_version e \<le> version_counter s"
          by (auto simp: versions_bounded_def)
        with Some show ?thesis by (simp add: stored_version_def)
      qed
      have bd: "versions_bounded (snd (write_leader Q s wd futures))"
        using b by (fastforce simp: write_leader_valid[OF key Some] put_local_def
            versions_bounded_def split: if_splits)
      have "version_le (stored_version (data_store s) k)
        (stored_version (data_store (snd (write_leader Q s wd futures))) k)"
        using le by (cases "k = k'")
          (simp_all add: write_leader_valid[OF key Some] put_local_def stored_version_def
            version_le_refl)
      with bd show ?thesis by simp
    qed
  qed
qed

lemma write_leader_as_steps:
  "handler_step s (Received k v) = (s1, h1) \<Longrightarrow> handler_step s1 h1 = (s2, h2) \<Longrightarrow>
   snd (write_leader Q s (write_msg k v) futures) = s2
   \<and> h2 = LocallyApplied k v (version_counter s + 1)
   \<and> body_version (fst (fst (write_leader Q s (write_msg k v) futures)))
       = Some (version_counter s + 1)"
  by (auto simp: write_leader_def write_msg_def next_version_def Let_def)

text \<open>
  C7: the stored version of a key never decreases on a node. The follower keeps this
  (\<open>replicate_follower_monotone\<close>), and so does the leader while each write runs from
  version assignment to local store without another write in between
  (\<open>write_leader_monotone_sequential\<close>). The leader's two locks are taken one after the
  other, though: with two handler threads writing the same key, thread 0 takes version 1,
  thread 1 takes version 2 and stores it, then thread 0 stores version 1 over it, and the
  stored version goes from 2 down to 1. A read on the leader then gives version 1, while
  a follower that received both replications gives version 2.
\<close>

theorem leader_version_decreases_under_interleaving:
  "stored_version (data_store (fst (run_schedule
       (\<lparr>data_store = Map.empty, version_counter = 0\<rparr>,
        [Received ''k'' ''a'', Received ''k'' ''b'']) [0, 1, 1]))) ''k'' = Some 2
   \<and> stored_version (data_store (fst (run_schedule
       (\<lparr>data_store = Map.empty, version_counter = 0\<rparr>,
        [Received ''k'' ''a'', Received ''k'' ''b'']) [0, 1, 1, 0]))) ''k'' = Some 1
   \<and> \<not> version_le (Some 2) (Some 1)
   \<and> read (data_store (fst (run_schedule
       (\<lparr>data_store = Map.empty, version_counter = 0\<rparr>,
        [Received ''k'' ''a'', Received ''k'' ''b'']) [0, 1, 1, 0]))) (Some ''k'')
       = (ReadBody ''k'' ''a'' 1, 200)
   \<and> read (deliver_all Map.empty (deliveries [(''k'', ''b'', 2), (''k'', ''a'', 1)])) (Some ''k'')
       = (ReadBody ''k'' ''b'' 2, 200)"
  by (simp add: next_version_def put_local_def stored_version_def read_def deliveries_def
      replicate_msg_def replicate_follower_def)

end
